theory Spec2Isabelle
  imports Main
begin

section \<open>The reverse complement of a DNA sequence\<close>

text \<open>
  The program is one Python function, \<^verbatim>\<open>get_reverse_complement(sequence)\<close>:
  \<^verbatim>\<open>
    complement_map = {'A': 'T', 'T': 'A', 'G': 'C', 'C': 'G',
                      'a': 't', 't': 'a', 'g': 'c', 'c': 'g'}
    valid_chars = set('ATGCatgc')
    if not all(char in valid_chars for char in sequence):
        invalid_chars = set(sequence) - valid_chars
        raise ValueError(f"Invalid characters found in sequence: {invalid_chars}")
    complement = ''.join(complement_map[base] for base in sequence)
    return complement[::-1]
  \<close>
  A sequence is a \<open>string\<close>; the function only ever compares a character with the eight
  ASCII letters of its tables, so every other character takes the path of the validation
  error. The two ways the body can raise are values of \<open>error\<close>:
  the \<^verbatim>\<open>ValueError\<close> of the validation, which carries the set \<^verbatim>\<open>invalid_chars\<close>
  that its message prints, and the \<^verbatim>\<open>KeyError\<close> of a dictionary lookup
  \<^verbatim>\<open>complement_map[base]\<close> on a missing key, which carries that key.
\<close>

subsection \<open>Data\<close>

datatype error = ValueError "char set" | KeyError char

text \<open>The dictionary, with its eight entries in the order of the source.\<close>

definition complement_map :: "char \<rightharpoonup> char" where
  "complement_map = map_of
     [(CHR ''A'', CHR ''T''), (CHR ''T'', CHR ''A''),
      (CHR ''G'', CHR ''C''), (CHR ''C'', CHR ''G''),
      (CHR ''a'', CHR ''t''), (CHR ''t'', CHR ''a''),
      (CHR ''g'', CHR ''c''), (CHR ''c'', CHR ''g'')]"

definition valid_chars :: "char set" where
  "valid_chars = set ''ATGCatgc''"

subsection \<open>The function\<close>

text \<open>
  \<^verbatim>\<open>''.join(complement_map[base] for base in sequence)\<close>: the generator looks the bases
  up from left to right, and the first missing key raises.
\<close>

fun join_complement :: "string \<Rightarrow> error + string" where
  "join_complement [] = Inr []"
| "join_complement (base # rest) =
     (case complement_map base of
        None \<Rightarrow> Inl (KeyError base)
      | Some c \<Rightarrow>
          (case join_complement rest of
             Inl e \<Rightarrow> Inl e
           | Inr cs \<Rightarrow> Inr (c # cs)))"

definition get_reverse_complement :: "string \<Rightarrow> error + string" where
  "get_reverse_complement sequence =
     (if \<not> list_all (\<lambda>char. char \<in> valid_chars) sequence
      then Inl (ValueError (set sequence - valid_chars))
      else (case join_complement sequence of
              Inl e \<Rightarrow> Inl e
            | Inr complement \<Rightarrow> Inr (rev complement)))"

subsection \<open>The vocabulary of the specification\<close>

text \<open>The allowed alphabet, as the specification writes it.\<close>

definition allowed_alphabet :: "char set" where
  "allowed_alphabet =
     {CHR ''A'', CHR ''T'', CHR ''G'', CHR ''C'', CHR ''a'', CHR ''t'', CHR ''g'', CHR ''c''}"

text \<open>
  The complement rule of the specification, \<open>A\<leftrightarrow>T\<close>, \<open>G\<leftrightarrow>C\<close>, \<open>a\<leftrightarrow>t\<close>, \<open>g\<leftrightarrow>c\<close>. The rule says nothing
  about other characters; they are left as they are.
\<close>

definition spec_complement :: "char \<Rightarrow> char" where
  "spec_complement c =
     (if c = CHR ''A'' then CHR ''T'' else if c = CHR ''T'' then CHR ''A''
      else if c = CHR ''G'' then CHR ''C'' else if c = CHR ''C'' then CHR ''G''
      else if c = CHR ''a'' then CHR ''t'' else if c = CHR ''t'' then CHR ''a''
      else if c = CHR ''g'' then CHR ''c'' else if c = CHR ''c'' then CHR ''g''
      else c)"

text \<open>Upper and lower case, by the ASCII code of the character.\<close>

definition is_upper :: "char \<Rightarrow> bool" where
  "is_upper c = (65 \<le> (of_char c :: nat) \<and> (of_char c :: nat) \<le> 90)"

definition is_lower :: "char \<Rightarrow> bool" where
  "is_lower c = (97 \<le> (of_char c :: nat) \<and> (of_char c :: nat) \<le> 122)"

text \<open>The two complement classes of the specification.\<close>

definition at_class :: "char set" where
  "at_class = {CHR ''A'', CHR ''T'', CHR ''a'', CHR ''t''}"

definition gc_class :: "char set" where
  "gc_class = {CHR ''G'', CHR ''C'', CHR ''g'', CHR ''c''}"

definition count_in :: "char set \<Rightarrow> string \<Rightarrow> nat" where
  "count_in cls s = length (filter (\<lambda>c. c \<in> cls) s)"

section \<open>Properties\<close>

subsection \<open>The dictionary and the validation alphabet\<close>

lemma valid_chars_allowed: "valid_chars = allowed_alphabet"
  by (auto simp: valid_chars_def allowed_alphabet_def)

lemma list_all_valid_iff: "list_all (\<lambda>char. char \<in> valid_chars) s \<longleftrightarrow> set s \<subseteq> allowed_alphabet"
  by (auto simp: list_all_iff valid_chars_allowed)

lemma dom_complement_map: "dom complement_map = valid_chars"
  by (auto simp: complement_map_def valid_chars_def dom_def split: if_splits)

lemma complement_map_Some:
  assumes "c \<in> allowed_alphabet"
  shows "\<exists>d. complement_map c = Some d"
  using assms dom_complement_map valid_chars_allowed by auto

lemma allowed_cases:
  assumes "c \<in> allowed_alphabet"
  obtains "c = CHR ''A''" | "c = CHR ''T''" | "c = CHR ''G''" | "c = CHR ''C''"
    | "c = CHR ''a''" | "c = CHR ''t''" | "c = CHR ''g''" | "c = CHR ''c''"
  using assms unfolding allowed_alphabet_def by blast

lemma lookup_closed:
  assumes "c \<in> allowed_alphabet"
  shows "the (complement_map c) \<in> allowed_alphabet"
  using assms by (cases rule: allowed_cases) (simp_all add: complement_map_def allowed_alphabet_def)

lemma lookup_involution:
  assumes "c \<in> allowed_alphabet"
  shows "the (complement_map (the (complement_map c))) = c"
  using assms by (cases rule: allowed_cases) (simp_all add: complement_map_def)

lemma lookup_at_class:
  assumes "c \<in> allowed_alphabet"
  shows "the (complement_map c) \<in> at_class \<longleftrightarrow> c \<in> at_class"
  using assms by (cases rule: allowed_cases) (simp_all add: complement_map_def at_class_def)

lemma lookup_gc_class:
  assumes "c \<in> allowed_alphabet"
  shows "the (complement_map c) \<in> gc_class \<longleftrightarrow> c \<in> gc_class"
  using assms by (cases rule: allowed_cases) (simp_all add: complement_map_def gc_class_def)

subsection \<open>The run of the function\<close>

text \<open>
  On a sequence over the allowed alphabet every lookup succeeds, so the function returns
  the reversed list of the values looked up; on any other sequence the validation raises.
\<close>

lemma join_complement_allowed:
  assumes "set s \<subseteq> allowed_alphabet"
  shows "join_complement s = Inr (map (\<lambda>base. the (complement_map base)) s)"
  using assms
proof (induction s)
  case Nil
  show ?case by simp
next
  case (Cons base rest)
  from Cons.prems have "base \<in> allowed_alphabet" by simp
  then obtain d where d: "complement_map base = Some d"
    using complement_map_Some by blast
  from Cons.prems have "set rest \<subseteq> allowed_alphabet" by simp
  with Cons.IH have "join_complement rest = Inr (map (\<lambda>base. the (complement_map base)) rest)" .
  with d show ?case by simp
qed

lemma get_reverse_complement_allowed:
  assumes "set s \<subseteq> allowed_alphabet"
  shows "get_reverse_complement s = Inr (rev (map (\<lambda>base. the (complement_map base)) s))"
  using assms by (simp add: get_reverse_complement_def list_all_valid_iff join_complement_allowed)

lemma get_reverse_complement_rejected:
  assumes "\<not> set s \<subseteq> allowed_alphabet"
  shows "get_reverse_complement s = Inl (ValueError (set s - valid_chars))"
  using assms by (simp add: get_reverse_complement_def list_all_valid_iff)

lemma count_in_lookup:
  assumes "set s \<subseteq> allowed_alphabet"
    and "\<And>c. c \<in> allowed_alphabet \<Longrightarrow> the (complement_map c) \<in> cls \<longleftrightarrow> c \<in> cls"
  shows "count_in cls (rev (map (\<lambda>base. the (complement_map base)) s)) = count_in cls s"
proof -
  have "count_in cls (map (\<lambda>base. the (complement_map base)) s) = count_in cls s"
    using assms by (induction s) (simp_all add: count_in_def)
  moreover have "count_in cls (rev xs) = count_in cls xs" for xs
    by (simp add: count_in_def flip: rev_filter)
  ultimately show ?thesis by simp
qed

subsection \<open>The dictionary against the complement rule\<close>

lemma lookup_spec:
  assumes "c \<in> allowed_alphabet"
  shows "the (complement_map c) = spec_complement c"
  using assms by (cases rule: allowed_cases) (simp_all add: complement_map_def spec_complement_def)

lemma spec_complement_upper:
  assumes "c \<in> allowed_alphabet"
  shows "is_upper (spec_complement c) \<longleftrightarrow> is_upper c"
  using assms by (cases rule: allowed_cases) (simp_all add: is_upper_def spec_complement_def)

lemma spec_complement_lower:
  assumes "c \<in> allowed_alphabet"
  shows "is_lower (spec_complement c) \<longleftrightarrow> is_lower c"
  using assms by (cases rule: allowed_cases) (simp_all add: is_lower_def spec_complement_def)

section \<open>The claims\<close>

text \<open>
  \<^bold>\<open>C1\<close>. For every sequence \<open>s\<close> over the allowed alphabet, \<open>get_reverse_complement s\<close>
  returns the reversal of the string obtained by replacing each character of \<open>s\<close>, in
  order, by its complement under the rule of the specification. An uppercase character at
  position \<open>i\<close> of the input gives an uppercase character at the complementary position
  \<open>length s - 1 - i\<close> of the output, and a lowercase one gives a lowercase one.
\<close>

theorem reverse_complement_algorithm:
  assumes "set s \<subseteq> allowed_alphabet"
  shows "\<exists>out. get_reverse_complement s = Inr out
           \<and> out = rev (map spec_complement s)
           \<and> (\<forall>i<length s.
                 (is_upper (s ! i) \<longrightarrow> is_upper (out ! (length s - 1 - i)))
               \<and> (is_lower (s ! i) \<longrightarrow> is_lower (out ! (length s - 1 - i))))"
proof -
  have same: "map (\<lambda>base. the (complement_map base)) s = map spec_complement s"
    using assms by (auto simp: lookup_spec)
  have out: "get_reverse_complement s = Inr (rev (map spec_complement s))"
    using get_reverse_complement_allowed [OF assms] same by simp
  have pos: "rev (map spec_complement s) ! (length s - 1 - i) = spec_complement (s ! i)"
    if "i < length s" for i
    using that by (simp add: rev_nth)
  have keep: "(is_upper (s ! i) \<longrightarrow> is_upper (rev (map spec_complement s) ! (length s - 1 - i)))
            \<and> (is_lower (s ! i) \<longrightarrow> is_lower (rev (map spec_complement s) ! (length s - 1 - i)))"
    if "i < length s" for i
  proof -
    from that assms have "s ! i \<in> allowed_alphabet" by (meson nth_mem subsetD)
    then show ?thesis
      using pos [OF that] spec_complement_upper spec_complement_lower by simp
  qed
  from out keep show ?thesis by blast
qed

theorem reverse_complement_algorithm_witness:
  "set ''AtcG'' \<subseteq> allowed_alphabet
   \<and> get_reverse_complement ''AtcG'' = Inr ''CgaT''
   \<and> (0::nat) < length ''AtcG'' \<and> is_upper (''AtcG'' ! 0) \<and> is_upper (''CgaT'' ! (length ''AtcG'' - 1 - 0))
   \<and> (1::nat) < length ''AtcG'' \<and> is_lower (''AtcG'' ! 1) \<and> is_lower (''CgaT'' ! (length ''AtcG'' - 1 - 1))"
proof -
  have ok: "set ''AtcG'' \<subseteq> allowed_alphabet"
    by (simp add: allowed_alphabet_def)
  from reverse_complement_algorithm [OF ok] obtain out where
    res: "get_reverse_complement ''AtcG'' = Inr out" and
    out: "out = rev (map spec_complement ''AtcG'')" and
    keep: "\<forall>i<length ''AtcG''.
             (is_upper (''AtcG'' ! i) \<longrightarrow> is_upper (out ! (length ''AtcG'' - 1 - i)))
           \<and> (is_lower (''AtcG'' ! i) \<longrightarrow> is_lower (out ! (length ''AtcG'' - 1 - i)))"
    by blast
  have val: "rev (map spec_complement ''AtcG'') = ''CgaT''"
    by (simp add: spec_complement_def)
  have l0: "(0::nat) < length ''AtcG''" and l1: "(1::nat) < length ''AtcG''"
    by simp_all
  have u: "is_upper (''AtcG'' ! 0)"
    by (simp add: is_upper_def)
  have l: "is_lower (''AtcG'' ! 1)"
    by (simp add: is_lower_def)
  from keep l0 u have "is_upper (out ! (length ''AtcG'' - 1 - 0))" by blast
  moreover from keep l1 l have "is_lower (out ! (length ''AtcG'' - 1 - 1))" by blast
  ultimately show ?thesis
    using ok res out val l0 l1 u l by simp
qed

text \<open>
  \<^bold>\<open>C2\<close>. \<open>get_reverse_complement s\<close> fails, and then with the \<open>ValueError\<close> of the validation,
  if and only if some character of \<open>s\<close> is outside the allowed alphabet. The error then
  carries the set of all characters of \<open>s\<close> outside the alphabet, and no string is returned.
\<close>

theorem invalid_sequence_error:
  "((\<exists>cs. get_reverse_complement s = Inl (ValueError cs)) \<longleftrightarrow> (\<exists>c\<in>set s. c \<notin> allowed_alphabet))
   \<and> ((\<exists>e. get_reverse_complement s = Inl e) \<longleftrightarrow> (\<exists>c\<in>set s. c \<notin> allowed_alphabet))
   \<and> ((\<exists>c\<in>set s. c \<notin> allowed_alphabet) \<longrightarrow>
        get_reverse_complement s = Inl (ValueError {c \<in> set s. c \<notin> allowed_alphabet})
        \<and> (\<forall>out. get_reverse_complement s \<noteq> Inr out))"
proof (cases "set s \<subseteq> allowed_alphabet")
  case True
  then show ?thesis
    using get_reverse_complement_allowed [OF True] by auto
next
  case False
  have "set s - valid_chars = {c \<in> set s. c \<notin> allowed_alphabet}"
    by (auto simp: valid_chars_allowed)
  with get_reverse_complement_rejected [OF False]
  have "get_reverse_complement s = Inl (ValueError {c \<in> set s. c \<notin> allowed_alphabet})"
    by simp
  with False show ?thesis by auto
qed

theorem invalid_sequence_error_witness:
  "(\<exists>c\<in>set ''ATCGX''. c \<notin> allowed_alphabet)
   \<and> get_reverse_complement ''ATCGX'' = Inl (ValueError {CHR ''X''})"
proof -
  have bad: "\<exists>c\<in>set ''ATCGX''. c \<notin> allowed_alphabet"
    by (simp add: allowed_alphabet_def)
  have "{c \<in> set ''ATCGX''. c \<notin> allowed_alphabet} = {CHR ''X''}"
    by (auto simp: allowed_alphabet_def)
  with bad invalid_sequence_error [of "''ATCGX''"] show ?thesis by simp
qed

text \<open>
  \<^bold>\<open>C3\<close>. On a sequence over the allowed alphabet the function is an involution: it
  succeeds, and applied to its own output it returns the input.
\<close>

theorem reverse_complement_involution:
  assumes "set s \<subseteq> allowed_alphabet"
  shows "\<exists>out. get_reverse_complement s = Inr out \<and> get_reverse_complement out = Inr s"
proof -
  let ?f = "\<lambda>base. the (complement_map base)"
  let ?out = "rev (map ?f s)"
  have first: "get_reverse_complement s = Inr ?out"
    by (rule get_reverse_complement_allowed [OF assms])
  have closed: "set ?out \<subseteq> allowed_alphabet"
    using assms by (auto simp: lookup_closed)
  have "map ?f (map ?f s) = s"
    using assms by (induction s) (simp_all add: lookup_involution)
  then have "rev (map ?f ?out) = s"
    by (simp add: rev_map)
  with get_reverse_complement_allowed [OF closed]
  have "get_reverse_complement ?out = Inr s" by simp
  with first show ?thesis by blast
qed

theorem reverse_complement_involution_witness:
  "set ''ATCG'' \<subseteq> allowed_alphabet
   \<and> get_reverse_complement ''ATCG'' = Inr ''CGAT''
   \<and> get_reverse_complement ''CGAT'' = Inr ''ATCG''"
proof -
  have ok: "set ''ATCG'' \<subseteq> allowed_alphabet"
    by (simp add: allowed_alphabet_def)
  from reverse_complement_involution [OF ok] obtain out where
    fwd: "get_reverse_complement ''ATCG'' = Inr out" and
    bwd: "get_reverse_complement out = Inr ''ATCG''"
    by blast
  have "get_reverse_complement ''ATCG'' = Inr ''CGAT''"
    by (simp add: get_reverse_complement_def valid_chars_def complement_map_def)
  with fwd have "out = ''CGAT''" by simp
  with ok fwd bwd show ?thesis by simp
qed

text \<open>
  \<^bold>\<open>C4\<close>. On a sequence over the allowed alphabet the output has the length of the input.
\<close>

theorem reverse_complement_length:
  assumes "set s \<subseteq> allowed_alphabet"
  shows "\<exists>out. get_reverse_complement s = Inr out \<and> length out = length s"
  using get_reverse_complement_allowed [OF assms] by simp

theorem reverse_complement_length_witness:
  "set ''AAATTTGGGCCC'' \<subseteq> allowed_alphabet
   \<and> get_reverse_complement ''AAATTTGGGCCC'' = Inr ''GGGCCCAAATTT''
   \<and> length ''GGGCCCAAATTT'' = length ''AAATTTGGGCCC''"
proof -
  have ok: "set ''AAATTTGGGCCC'' \<subseteq> allowed_alphabet"
    by (simp add: allowed_alphabet_def)
  from reverse_complement_length [OF ok] obtain out where
    res: "get_reverse_complement ''AAATTTGGGCCC'' = Inr out" and
    len: "length out = length ''AAATTTGGGCCC''"
    by blast
  have "get_reverse_complement ''AAATTTGGGCCC'' = Inr ''GGGCCCAAATTT''"
    by (simp add: get_reverse_complement_def valid_chars_def complement_map_def)
  with res have "out = ''GGGCCCAAATTT''" by simp
  with ok res len show ?thesis by simp
qed

text \<open>
  \<^bold>\<open>C5\<close>. On a sequence over the allowed alphabet every character of the output is in the
  allowed alphabet.
\<close>

theorem reverse_complement_alphabet_closed:
  assumes "set s \<subseteq> allowed_alphabet"
  shows "\<exists>out. get_reverse_complement s = Inr out \<and> (\<forall>c\<in>set out. c \<in> allowed_alphabet)"
proof -
  have "\<forall>c\<in>set (rev (map (\<lambda>base. the (complement_map base)) s)). c \<in> allowed_alphabet"
    using assms by (auto simp: lookup_closed)
  with get_reverse_complement_allowed [OF assms] show ?thesis by blast
qed

theorem reverse_complement_alphabet_closed_witness:
  "set ''GATc'' \<subseteq> allowed_alphabet
   \<and> get_reverse_complement ''GATc'' = Inr ''gATC''
   \<and> set ''gATC'' \<subseteq> allowed_alphabet"
proof -
  have ok: "set ''GATc'' \<subseteq> allowed_alphabet"
    by (simp add: allowed_alphabet_def)
  from reverse_complement_alphabet_closed [OF ok] obtain out where
    res: "get_reverse_complement ''GATc'' = Inr out" and
    closed: "\<forall>c\<in>set out. c \<in> allowed_alphabet"
    by blast
  have "get_reverse_complement ''GATc'' = Inr ''gATC''"
    by (simp add: get_reverse_complement_def valid_chars_def complement_map_def)
  with res have out: "out = ''gATC''" by simp
  from closed have "set out \<subseteq> allowed_alphabet" by blast
  with ok res out show ?thesis by simp
qed

text \<open>
  \<^bold>\<open>C6\<close>. The empty sequence is accepted and maps to itself.
\<close>

theorem reverse_complement_empty: "get_reverse_complement '''' = Inr ''''"
  by (simp add: get_reverse_complement_def)

text \<open>
  \<^bold>\<open>C7\<close>. The concrete scenarios: \<open>A\<close> gives \<open>T\<close>, \<open>AT\<close> gives \<open>AT\<close>, \<open>ATCG\<close> gives \<open>CGAT\<close>,
  \<open>GAATTC\<close> gives \<open>GAATTC\<close>, \<open>atcg\<close> gives \<open>cgat\<close> and \<open>AAGCTT\<close> gives \<open>AAGCTT\<close>.
\<close>

theorem reverse_complement_scenarios:
  "get_reverse_complement ''A'' = Inr ''T''
   \<and> get_reverse_complement ''AT'' = Inr ''AT''
   \<and> get_reverse_complement ''ATCG'' = Inr ''CGAT''
   \<and> get_reverse_complement ''GAATTC'' = Inr ''GAATTC''
   \<and> get_reverse_complement ''atcg'' = Inr ''cgat''
   \<and> get_reverse_complement ''AAGCTT'' = Inr ''AAGCTT''"
proof -
  have s1: "get_reverse_complement ''A'' = Inr ''T''"
    by (simp add: get_reverse_complement_def valid_chars_def complement_map_def)
  have s2: "get_reverse_complement ''AT'' = Inr ''AT''"
    by (simp add: get_reverse_complement_def valid_chars_def complement_map_def)
  have s3: "get_reverse_complement ''ATCG'' = Inr ''CGAT''"
    by (simp add: get_reverse_complement_def valid_chars_def complement_map_def)
  have s4: "get_reverse_complement ''GAATTC'' = Inr ''GAATTC''"
    by (simp add: get_reverse_complement_def valid_chars_def complement_map_def)
  have s5: "get_reverse_complement ''atcg'' = Inr ''cgat''"
    by (simp add: get_reverse_complement_def valid_chars_def complement_map_def)
  have s6: "get_reverse_complement ''AAGCTT'' = Inr ''AAGCTT''"
    by (simp add: get_reverse_complement_def valid_chars_def complement_map_def)
  from s1 s2 s3 s4 s5 s6 show ?thesis by blast
qed

text \<open>
  \<^bold>\<open>C8\<close>. On a sequence over the allowed alphabet the output has as many characters of the
  class \<open>{A, T, a, t}\<close> as the input, and as many of the class \<open>{G, C, g, c}\<close>.
\<close>

theorem reverse_complement_classes:
  assumes "set s \<subseteq> allowed_alphabet"
  shows "\<exists>out. get_reverse_complement s = Inr out
           \<and> count_in at_class out = count_in at_class s
           \<and> count_in gc_class out = count_in gc_class s"
  using get_reverse_complement_allowed [OF assms]
    count_in_lookup [OF assms lookup_at_class] count_in_lookup [OF assms lookup_gc_class]
  by simp

theorem reverse_complement_classes_witness:
  "set ''AAGc'' \<subseteq> allowed_alphabet
   \<and> get_reverse_complement ''AAGc'' = Inr ''gCTT''
   \<and> count_in at_class ''gCTT'' = 2 \<and> count_in at_class ''AAGc'' = 2
   \<and> count_in gc_class ''gCTT'' = 2 \<and> count_in gc_class ''AAGc'' = 2"
proof -
  have ok: "set ''AAGc'' \<subseteq> allowed_alphabet"
    by (simp add: allowed_alphabet_def)
  from reverse_complement_classes [OF ok] obtain out where
    res: "get_reverse_complement ''AAGc'' = Inr out" and
    at: "count_in at_class out = count_in at_class ''AAGc''" and
    gc: "count_in gc_class out = count_in gc_class ''AAGc''"
    by blast
  have "get_reverse_complement ''AAGc'' = Inr ''gCTT''"
    by (simp add: get_reverse_complement_def valid_chars_def complement_map_def)
  with res have out: "out = ''gCTT''" by simp
  have a: "count_in at_class ''AAGc'' = 2"
    by (simp add: count_in_def at_class_def)
  have g: "count_in gc_class ''AAGc'' = 2"
    by (simp add: count_in_def gc_class_def)
  from ok res at gc out a g show ?thesis by simp
qed

text \<open>
  \<^bold>\<open>C9\<close>. The key set of \<open>complement_map\<close> is exactly the validation alphabet
  \<open>ATGCatgc\<close>. So for every string the function either raises the \<open>ValueError\<close> of the
  validation or returns a string, and never a \<open>KeyError\<close>; and on a sequence over the
  allowed alphabet every lookup \<open>complement_map[base]\<close> finds its key, so that the join
  itself returns.
\<close>

theorem reverse_complement_total:
  "dom complement_map = valid_chars
   \<and> valid_chars = set ''ATGCatgc''
   \<and> ((\<exists>cs. get_reverse_complement s = Inl (ValueError cs)) \<or> (\<exists>out. get_reverse_complement s = Inr out))
   \<and> (\<forall>base. get_reverse_complement s \<noteq> Inl (KeyError base))
   \<and> (set s \<subseteq> allowed_alphabet \<longrightarrow>
        (\<exists>cs. join_complement s = Inr cs) \<and> (\<forall>base\<in>set s. \<exists>c. complement_map base = Some c))"
proof (cases "set s \<subseteq> allowed_alphabet")
  case True
  have "\<forall>base\<in>set s. \<exists>c. complement_map base = Some c"
    using True complement_map_Some by blast
  with True get_reverse_complement_allowed [OF True] join_complement_allowed [OF True]
  show ?thesis
    by (simp add: dom_complement_map valid_chars_def)
next
  case False
  with get_reverse_complement_rejected [OF False] show ?thesis
    by (simp add: dom_complement_map valid_chars_def)
qed

theorem reverse_complement_total_witness:
  "set ''atcg'' \<subseteq> allowed_alphabet
   \<and> join_complement ''atcg'' = Inr ''tagc''
   \<and> get_reverse_complement ''atcg'' = Inr ''cgat''
   \<and> get_reverse_complement ''atxg'' = Inl (ValueError {CHR ''x''})"
proof -
  have ok: "set ''atcg'' \<subseteq> allowed_alphabet"
    by (simp add: allowed_alphabet_def)
  from reverse_complement_total [of "''atcg''"] ok
  obtain cs where "join_complement ''atcg'' = Inr cs"
    by blast
  moreover have "join_complement ''atcg'' = Inr ''tagc''"
    by (simp add: complement_map_def)
  moreover have "get_reverse_complement ''atcg'' = Inr ''cgat''"
    by (simp add: get_reverse_complement_def valid_chars_def complement_map_def)
  moreover have "get_reverse_complement ''atxg'' = Inl (ValueError {CHR ''x''})"
    by (auto simp: get_reverse_complement_def valid_chars_def)
  ultimately show ?thesis using ok by simp
qed

text \<open>
  \<^bold>\<open>C10\<close>. For sequences \<open>s\<close> and \<open>t\<close> over the allowed alphabet, the reverse complement of
  \<open>s + t\<close> is the reverse complement of \<open>t\<close> followed by that of \<open>s\<close>.
\<close>

theorem reverse_complement_append:
  assumes "set s \<subseteq> allowed_alphabet" and "set t \<subseteq> allowed_alphabet"
  shows "\<exists>rs rt. get_reverse_complement s = Inr rs \<and> get_reverse_complement t = Inr rt
           \<and> get_reverse_complement (s @ t) = Inr (rt @ rs)"
proof -
  from assms have both: "set (s @ t) \<subseteq> allowed_alphabet" by simp
  show ?thesis
    using get_reverse_complement_allowed [OF assms(1)] get_reverse_complement_allowed [OF assms(2)]
      get_reverse_complement_allowed [OF both]
    by simp
qed

theorem reverse_complement_append_witness:
  "set ''AAG'' \<subseteq> allowed_alphabet \<and> set ''ct'' \<subseteq> allowed_alphabet
   \<and> get_reverse_complement ''AAG'' = Inr ''CTT''
   \<and> get_reverse_complement ''ct'' = Inr ''ag''
   \<and> get_reverse_complement (''AAG'' @ ''ct'') = Inr (''ag'' @ ''CTT'')"
proof -
  have ok1: "set ''AAG'' \<subseteq> allowed_alphabet" and ok2: "set ''ct'' \<subseteq> allowed_alphabet"
    by (simp_all add: allowed_alphabet_def)
  from reverse_complement_append [OF ok1 ok2] obtain rs rt where
    r1: "get_reverse_complement ''AAG'' = Inr rs" and
    r2: "get_reverse_complement ''ct'' = Inr rt" and
    r3: "get_reverse_complement (''AAG'' @ ''ct'') = Inr (rt @ rs)"
    by blast
  have "get_reverse_complement ''AAG'' = Inr ''CTT''"
    by (simp add: get_reverse_complement_def valid_chars_def complement_map_def)
  with r1 have rs: "rs = ''CTT''" by simp
  have "get_reverse_complement ''ct'' = Inr ''ag''"
    by (simp add: get_reverse_complement_def valid_chars_def complement_map_def)
  with r2 have rt: "rt = ''ag''" by simp
  from ok1 ok2 r1 r2 r3 rs rt show ?thesis by simp
qed

end
